theory Spec2Isabelle
  imports Main "HOL-Library.Multiset"
begin

section \<open>The dependency registry of src/core/observer/dep.js\<close>

text \<open>
  The module keeps three pieces of module-level state: the counter \<open>uid\<close>, the static
  field \<open>Dep.target\<close> and the array \<open>targetStack\<close>. Every \<open>Dep\<close> object has the fields
  \<open>id\<close> and \<open>subs\<close>. Objects are referred to by address: \<open>dref\<close> for a \<open>Dep\<close>, \<open>wref\<close>
  for a \<open>Watcher\<close>; two references are the same object exactly when the addresses are
  equal (JavaScript's \<open>===\<close> on objects).

  The counter \<open>uid\<close> and the field \<open>Dep.id\<close> are JavaScript numbers, that is doubles,
  which hold every integer up to \<open>2 ^ 53 = 9007199254740992\<close> exactly. The counter
  starts at 0 and only \<open>uid++\<close> changes it, so it holds a natural number and is modelled
  as one, with the rounding of \<open>uid++\<close> written out in \<open>increment\<close> below. Watcher ids
  are integers.
  The variable \<open>process.env.NODE_ENV\<close> is a string; when it is unset the comparison
  with \<open>'production'\<close> comes out as for any other string.
\<close>

type_synonym wref = nat
type_synonym dref = nat

text \<open>The values of the Flow type \<open>?Watcher\<close>: \<open>null\<close>, \<open>undefined\<close> or a watcher object.\<close>

datatype target = Null | Undefined | Obj wref

text \<open>A \<open>Dep\<close> object. The field \<open>id\<close> is written \<open>id'\<close>.\<close>

record Dep =
  id' :: nat
  subs :: "wref list"

text \<open>
  The whole state a call can read or write: the module's own variables, the heap of
  \<open>Dep\<close> objects, the two settings \<open>notify\<close> reads (\<open>process.env.NODE_ENV\<close> and
  \<open>config.async\<close>), the \<open>id\<close> field of every watcher, and in \<open>watchers\<close> everything else
  the watchers keep (their \<open>newDeps\<close>, \<open>depIds\<close>, ...), whose shape is left open.
\<close>

record 'w state =
  uid :: nat
  deps :: "dref \<Rightarrow> Dep"
  target :: target
  targetStack :: "target list"
  NODE_ENV :: string
  config_async :: bool
  watcher_id :: "wref \<Rightarrow> int"
  watchers :: 'w

text \<open>
  The state when the module has been loaded: \<open>uid = 0\<close>, \<open>Dep.target = null\<close>,
  \<open>targetStack = []\<close>. The rest is given by the arguments; no \<open>Dep\<close> exists yet.
\<close>

definition init_state :: "string \<Rightarrow> bool \<Rightarrow> (wref \<Rightarrow> int) \<Rightarrow> 'w \<Rightarrow> 'w state" where
  "init_state env async ids ws =
     \<lparr>uid = 0, deps = (\<lambda>_. \<lparr>id' = 0, subs = []\<rparr>), target = Null, targetStack = [],
      NODE_ENV = env, config_async = async, watcher_id = ids, watchers = ws\<rparr>"

subsection \<open>The class Dep\<close>

text \<open>
  The new value of the counter after \<open>uid++\<close>. Below \<open>2 ^ 53\<close> the sum \<open>uid + 1\<close> is
  exact. At \<open>2 ^ 53\<close> it is not a double: it lies halfway between \<open>2 ^ 53\<close> and
  \<open>2 ^ 53 + 2\<close> and is rounded to the one with the even mantissa, \<open>2 ^ 53\<close>, so the counter
  stays where it is. Counting up from 0 it therefore never holds more than \<open>2 ^ 53\<close>.
\<close>

definition increment :: "nat \<Rightarrow> nat" where
  "increment n = (if n < 9007199254740992 then n + 1 else n)"

text \<open>
  \<open>constructor() { this.id = uid++; this.subs = [] }\<close>, where \<open>this\<close> is the address of
  the object that \<open>new\<close> has just allocated. The id is the value of the counter before
  the increment.
\<close>

definition Dep_constructor :: "dref \<Rightarrow> 'w state \<Rightarrow> 'w state" where
  "Dep_constructor this s =
     s\<lparr>deps := (deps s)(this := \<lparr>id' = uid s, subs = []\<rparr>), uid := increment (uid s)\<rparr>"

text \<open>\<open>addSub(sub) { this.subs.push(sub) }\<close>\<close>

definition addSub :: "dref \<Rightarrow> wref \<Rightarrow> 'w state \<Rightarrow> 'w state" where
  "addSub this sub s =
     s\<lparr>deps := (deps s)(this := (deps s this)\<lparr>subs := subs (deps s this) @ [sub]\<rparr>)\<rparr>"

text \<open>
  Modelled from the spec: the helper \<open>remove(arr, item)\<close> that dep.js imports from
  \<open>../util/index\<close>, a file that is not among the sources. The specification says of
  \<open>removeSub\<close>, which only calls it, that it removes the first occurrence of the
  consumer from the subscriber sequence and is a no-op if the consumer is absent.
\<close>

fun remove_arr :: "'a list \<Rightarrow> 'a \<Rightarrow> 'a list" where
  "remove_arr [] item = []"
| "remove_arr (x # arr) item = (if x = item then arr else x # remove_arr arr item)"

text \<open>\<open>removeSub(sub) { remove(this.subs, sub) }\<close>; the helper changes the array in place.\<close>

definition removeSub :: "dref \<Rightarrow> wref \<Rightarrow> 'w state \<Rightarrow> 'w state" where
  "removeSub this sub s =
     s\<lparr>deps := (deps s)(this := (deps s this)\<lparr>subs := remove_arr (subs (deps s this)) sub\<rparr>)\<rparr>"

text \<open>
  \<open>depend() { if (Dep.target) { Dep.target.addDep(this) } }\<close>. Of the three kinds of
  value only an object is truthy. The method \<open>addDep\<close> belongs to the watcher; it is a
  parameter here: any function that, for a watcher and a \<open>Dep\<close>, either throws (\<open>Inl\<close>)
  or returns a new state. Next to the outcome, \<open>depend\<close> returns the calls of \<open>addDep\<close>
  it has made, each as the pair of the receiver and the argument.
\<close>

definition depend ::
  "(wref \<Rightarrow> dref \<Rightarrow> 'w state \<Rightarrow> 'e + 'w state) \<Rightarrow> dref \<Rightarrow> 'w state
     \<Rightarrow> (wref \<times> dref) list \<times> ('e + 'w state)" where
  "depend addDep this s =
     (case target s of
        Obj w \<Rightarrow> ([(w, this)], addDep w this s)
      | Null \<Rightarrow> ([], Inr s)
      | Undefined \<Rightarrow> ([], Inr s))"

text \<open>
  \<open>Array.prototype.sort\<close> with a comparison function: a stable sort that puts \<open>a\<close>
  before \<open>b\<close> when \<open>compareFn(a, b)\<close> is not positive. It is written as an insertion
  sort; the comparison function \<open>(a, b) => a.id - b.id\<close> of \<open>notify\<close> is \<open>by_id\<close>.
\<close>

fun insert_cmp :: "('a \<Rightarrow> 'a \<Rightarrow> int) \<Rightarrow> 'a \<Rightarrow> 'a list \<Rightarrow> 'a list" where
  "insert_cmp cmp a [] = [a]"
| "insert_cmp cmp a (b # bs) = (if cmp a b \<le> 0 then a # b # bs else b # insert_cmp cmp a bs)"

fun sort_cmp :: "('a \<Rightarrow> 'a \<Rightarrow> int) \<Rightarrow> 'a list \<Rightarrow> 'a list" where
  "sort_cmp cmp [] = []"
| "sort_cmp cmp (a # as) = insert_cmp cmp a (sort_cmp cmp as)"

definition by_id :: "'w state \<Rightarrow> wref \<Rightarrow> wref \<Rightarrow> int" where
  "by_id s a b = watcher_id s a - watcher_id s b"

text \<open>
  The loop \<open>for (let i = 0, l = subs.length; i < l; i++) { subs[i].update() }\<close> over the
  local copy \<open>subs\<close>, which nothing else can reach. The method \<open>update\<close> belongs to the
  watcher and is a parameter: any function that either throws or returns a new state,
  so it may change every part of the state, the \<open>subs\<close> of this very \<open>Dep\<close> included.
  There is no \<open>try\<close> in the loop: an exception leaves it and \<open>notify\<close> at once. Next to
  the outcome, the loop returns the watchers whose \<open>update\<close> it has called, in order.
\<close>

fun notify_loop ::
  "(wref \<Rightarrow> 'w state \<Rightarrow> 'e + 'w state) \<Rightarrow> wref list \<Rightarrow> 'w state
     \<Rightarrow> wref list \<times> ('e + 'w state)" where
  "notify_loop update [] s = ([], Inr s)"
| "notify_loop update (w # ws) s =
     (case update w s of
        Inl e \<Rightarrow> ([w], Inl e)
      | Inr s' \<Rightarrow> (case notify_loop update ws s' of (called, r) \<Rightarrow> (w # called, r)))"

text \<open>
  \<open>notify()\<close>: \<open>const subs = this.subs.slice()\<close>, then the sort under the condition
  \<open>process.env.NODE_ENV !== 'production' && !config.async\<close>, then the loop.
\<close>

definition notify ::
  "(wref \<Rightarrow> 'w state \<Rightarrow> 'e + 'w state) \<Rightarrow> dref \<Rightarrow> 'w state
     \<Rightarrow> wref list \<times> ('e + 'w state)" where
  "notify update this s =
     (let subs0 = subs (deps s this);
          subs1 = (if NODE_ENV s \<noteq> ''production'' \<and> \<not> config_async s
                   then sort_cmp (by_id s) subs0 else subs0)
      in notify_loop update subs1 s)"

subsection \<open>The stack of targets\<close>

text \<open>
  \<open>pushTarget(target) { targetStack.push(target); Dep.target = target }\<close>. The last
  element of the list is the top of the stack.
\<close>

definition pushTarget :: "target \<Rightarrow> 'w state \<Rightarrow> 'w state" where
  "pushTarget t s = s\<lparr>targetStack := targetStack s @ [t], target := t\<rparr>"

text \<open>
  \<open>popTarget() { targetStack.pop(); Dep.target = targetStack[targetStack.length - 1] }\<close>.
  On an empty array \<open>pop\<close> does nothing, and the read of index \<open>-1\<close> that follows yields
  \<open>undefined\<close>.
\<close>

definition popTarget :: "'w state \<Rightarrow> 'w state" where
  "popTarget s =
     (let stack = butlast (targetStack s)
      in s\<lparr>targetStack := stack,
           target := (if stack = [] then Undefined else last stack)\<rparr>)"

text \<open>The watcher that \<open>depend\<close> takes as active: the object in \<open>Dep.target\<close>, if any.\<close>

definition active :: "target \<Rightarrow> wref option" where
  "active t = (case t of Obj w \<Rightarrow> Some w | Null \<Rightarrow> None | Undefined \<Rightarrow> None)"

text \<open>
  \<open>Dep.target\<close> is the top of the stack, and holds no watcher when the stack is empty.
\<close>

definition target_is_top :: "'w state \<Rightarrow> bool" where
  "target_is_top s =
     (if targetStack s = [] then active (target s) = None
      else target s = last (targetStack s))"

subsection \<open>Sequences of calls\<close>

text \<open>
  The calls by which the rest of the program changes the state of the module; \<open>depend\<close>
  and \<open>notify\<close> write nothing themselves, what happens during them is what the
  watchers' methods do.
\<close>

datatype call =
  New_Dep dref | Add_Sub dref wref | Remove_Sub dref wref | Push_Target target | Pop_Target

fun do_call :: "call \<Rightarrow> 'w state \<Rightarrow> 'w state" where
  "do_call (New_Dep d) s = Dep_constructor d s"
| "do_call (Add_Sub d w) s = addSub d w s"
| "do_call (Remove_Sub d w) s = removeSub d w s"
| "do_call (Push_Target t) s = pushTarget t s"
| "do_call Pop_Target s = popTarget s"

fun do_calls :: "call list \<Rightarrow> 'w state \<Rightarrow> 'w state" where
  "do_calls [] s = s"
| "do_calls (c # cs) s = do_calls cs (do_call c s)"

subsection \<open>A small scenario\<close>

text \<open>
  The scenario of the specification: a \<open>Dep\<close> at address 0 to which the watcher with
  id 2 has subscribed before the watcher with id 1. Watchers are named by their ids.
  Three \<open>update\<close> methods: one that does nothing, one that unsubscribes its watcher
  from that \<open>Dep\<close> and subscribes it again, and one that throws for the watcher \<open>k\<close>;
  and an \<open>addDep\<close> that subscribes its watcher without looking whether it has already.
\<close>

definition scenario :: "string \<Rightarrow> bool \<Rightarrow> unit state" where
  "scenario env async =
     do_calls [New_Dep 0, Add_Sub 0 2, Add_Sub 0 1] (init_state env async int ())"

definition update_nothing :: "wref \<Rightarrow> unit state \<Rightarrow> string + unit state" where
  "update_nothing w s = Inr s"

definition update_resubscribe :: "wref \<Rightarrow> unit state \<Rightarrow> string + unit state" where
  "update_resubscribe w s = Inr (addSub 0 w (removeSub 0 w s))"

definition update_raise_at :: "wref \<Rightarrow> wref \<Rightarrow> unit state \<Rightarrow> string + unit state" where
  "update_raise_at k w s = (if w = k then Inl ''boom'' else Inr s)"

definition addDep_subscribe :: "wref \<Rightarrow> dref \<Rightarrow> unit state \<Rightarrow> string + unit state" where
  "addDep_subscribe w d s = Inr (addSub d w s)"

section \<open>Auxiliary facts\<close>

subsection \<open>The sort\<close>

lemma insert_cmp_by_id: "insert_cmp (by_id s) a xs = insort_key (watcher_id s) a xs"
  by (induction xs) (auto simp: by_id_def)

lemma sort_cmp_by_id: "sort_cmp (by_id s) xs = sort_key (watcher_id s) xs"
  by (induction xs) (simp_all add: insert_cmp_by_id sort_key_def)

lemma sorted_sort_cmp: "sorted (map (watcher_id s) (sort_cmp (by_id s) xs))"
  by (simp add: sort_cmp_by_id)

lemma mset_sort_cmp: "mset (sort_cmp (by_id s) xs) = mset xs"
  by (simp add: sort_cmp_by_id)

subsection \<open>The loop of notify\<close>

lemma notify_eq_loop:
  "notify update d s =
     notify_loop update
       (if NODE_ENV s \<noteq> ''production'' \<and> \<not> config_async s
        then sort_cmp (by_id s) (subs (deps s d)) else subs (deps s d)) s"
  by (simp add: notify_def Let_def)

lemma notify_loop_Inr: "notify_loop update ws s = (called, Inr s') \<Longrightarrow> called = ws"
  by (induction ws arbitrary: s called) (auto split: sum.splits prod.splits)

lemma notify_loop_take: "\<exists>k. fst (notify_loop update ws s) = take k ws"
proof (induction ws arbitrary: s)
  case Nil
  then show ?case by simp
next
  case (Cons w ws)
  show ?case
  proof (cases "update w s")
    case (Inl e)
    then have "fst (notify_loop update (w # ws) s) = take 1 (w # ws)" by simp
    then show ?thesis by blast
  next
    case (Inr s')
    from Cons.IH [of s'] obtain k where "fst (notify_loop update ws s') = take k ws" by blast
    with Inr have "fst (notify_loop update (w # ws) s) = take (Suc k) (w # ws)"
      by (cases "notify_loop update ws s'") simp
    then show ?thesis by blast
  qed
qed

lemma notify_loop_raise:
  "notify_loop update pre s = (pre, Inr s1) \<Longrightarrow> update w s1 = Inl e
   \<Longrightarrow> notify_loop update (pre @ w # post) s = (pre @ [w], Inl e)"
  by (induction pre arbitrary: s) (auto split: sum.splits prod.splits)




subsection \<open>Sequences of calls\<close>






text \<open>
  \<open>Dep.target\<close> is the top of the stack in the initial state and after every call, hence
  in every state that a sequence of calls reaches.
\<close>



lemma target_is_top_init: "target_is_top (init_state env async ids ws)"
  by (simp add: target_is_top_def init_state_def active_def)

lemma target_is_top_do_call: "target_is_top s \<Longrightarrow> target_is_top (do_call c s)"
  by (cases c)
    (auto simp: target_is_top_def Dep_constructor_def addSub_def removeSub_def pushTarget_def
       popTarget_def Let_def active_def)

lemma target_is_top_do_calls: "target_is_top s \<Longrightarrow> target_is_top (do_calls cs s)"
  by (induction cs arbitrary: s) (simp_all add: target_is_top_do_call)

lemma target_is_top_reachable: "target_is_top (do_calls cs (init_state env async ids ws))"
  by (rule target_is_top_do_calls) (rule target_is_top_init)

subsection \<open>The helper remove\<close>

lemma remove_arr_absent: "c \<notin> set xs \<Longrightarrow> remove_arr xs c = xs"
  by (induction xs) auto

lemma remove_arr_first: "c \<notin> set xs \<Longrightarrow> remove_arr (xs @ c # ys) c = xs @ ys"
  by (induction xs) auto

lemma removeSub_absent: "c \<notin> set (subs (deps s d)) \<Longrightarrow> removeSub d c s = s"
  by (simp add: removeSub_def remove_arr_absent)

subsection \<open>The scenario\<close>

lemma scenario_simps:
  "subs (deps (scenario env async) 0) = [2, 1]"
  "NODE_ENV (scenario env async) = env"
  "config_async (scenario env async) = async"
  "watcher_id (scenario env async) = int"
  by (simp_all add: scenario_def init_state_def Dep_constructor_def increment_def addSub_def)

section \<open>Properties\<close>

subsection \<open>notify\<close>

text \<open>
  C1, as amended. When \<open>process.env.NODE_ENV\<close> is not \<open>'production'\<close> and \<open>config.async\<close>
  is false, one call of \<open>notify\<close> calls \<open>update\<close> in ascending order of the watchers' ids
  as they are when \<open>notify\<close> is entered, whatever the order of subscription. For
  subscribers \<open>a\<close> and \<open>b\<close> with \<open>a.id < b.id\<close>: if \<open>update\<close> is called on \<open>b\<close> it has been
  called on \<open>a\<close>; every call on \<open>a\<close> precedes every call on \<open>b\<close>; and when \<open>notify\<close> returns
  normally both have been called.
\<close>

theorem notify_ascending_ids:
  assumes dev: "NODE_ENV s \<noteq> ''production''" and sync: "\<not> config_async s"
    and run: "notify update d s = (called, r)"
    and a: "a \<in> set (subs (deps s d))" and b: "b \<in> set (subs (deps s d))"
    and less: "watcher_id s a < watcher_id s b"
  shows "(b \<in> set called \<longrightarrow> a \<in> set called)
       \<and> (\<forall>i j. i < length called \<and> j < length called \<and> called ! i = a \<and> called ! j = b
             \<longrightarrow> i < j)
       \<and> (\<forall>s'. r = Inr s' \<longrightarrow> a \<in> set called \<and> b \<in> set called)"
proof -
  define L where "L = sort_cmp (by_id s) (subs (deps s d))"
  from dev sync run have loop: "notify_loop update L s = (called, r)"
    by (simp add: notify_eq_loop L_def)
  have sortedL: "sorted (map (watcher_id s) L)"
    unfolding L_def by (rule sorted_sort_cmp)
  have setL: "set L = set (subs (deps s d))"
    unfolding L_def by (metis mset_sort_cmp set_mset_mset)
  obtain k where "fst (notify_loop update L s) = take k L"
    using notify_loop_take by blast
  with loop have called: "called = take k L" by simp
  have nth: "called ! i = L ! i" and inL: "i < length L" if "i < length called" for i
    using that called by simp_all
  have order: "i < j" if "i < length L" "j < length L" "L ! i = a" "L ! j = b" for i j
  proof (rule ccontr)
    assume "\<not> i < j"
    then have "j \<le> i" by simp
    with sortedL that(1) have "map (watcher_id s) L ! j \<le> map (watcher_id s) L ! i"
      by (simp add: sorted_iff_nth_mono del: nth_map)
    with that less show False by simp
  qed
  have first: "b \<in> set called \<longrightarrow> a \<in> set called"
  proof
    assume "b \<in> set called"
    then obtain j where j: "j < length called" "called ! j = b"
      by (auto simp: in_set_conv_nth)
    from a setL have "a \<in> set L" by simp
    then obtain i where i: "i < length L" "L ! i = a"
      by (auto simp: in_set_conv_nth)
    from j(1) have jL: "j < length L" by (rule inL)
    from j have "L ! j = b" by (simp add: nth)
    with i jL have "i < j" by (simp add: order)
    with j(1) have ic: "i < length called" by simp
    then have "called ! i = a" using i(2) by (simp add: nth)
    with ic show "a \<in> set called" using nth_mem by blast
  qed
  have second: "\<forall>i j. i < length called \<and> j < length called \<and> called ! i = a \<and> called ! j = b
                  \<longrightarrow> i < j"
  proof (intro allI impI)
    fix i j
    assume ij: "i < length called \<and> j < length called \<and> called ! i = a \<and> called ! j = b"
    then have "i < length L" "j < length L" by (simp_all add: inL)
    moreover from ij have "L ! i = a" "L ! j = b" using nth by auto
    ultimately show "i < j" by (rule order)
  qed
  have third: "\<forall>s'. r = Inr s' \<longrightarrow> a \<in> set called \<and> b \<in> set called"
  proof (intro allI impI)
    fix s' assume "r = Inr s'"
    with loop have "called = L" by (simp add: notify_loop_Inr)
    with a b setL show "a \<in> set called \<and> b \<in> set called" by simp
  qed
  from first second third show ?thesis by blast
qed

text \<open>
  In the scenario the watcher with id 2 subscribed first, and outside production and
  with \<open>config.async\<close> false the watcher with id 1 is updated first.
\<close>

theorem notify_ascending_ids_witness:
  "NODE_ENV (scenario ''development'' False) \<noteq> ''production''
   \<and> \<not> config_async (scenario ''development'' False)
   \<and> notify update_nothing 0 (scenario ''development'' False)
       = ([1, 2], Inr (scenario ''development'' False))
   \<and> 1 \<in> set (subs (deps (scenario ''development'' False) 0))
   \<and> 2 \<in> set (subs (deps (scenario ''development'' False) 0))
   \<and> watcher_id (scenario ''development'' False) 1 < watcher_id (scenario ''development'' False) 2
   \<and> 1 \<in> set [1, 2 :: nat] \<and> 2 \<in> set [1, 2 :: nat]"
proof -
  let ?s = "scenario ''development'' False"
  have h1: "NODE_ENV ?s \<noteq> ''production''" by (simp add: scenario_simps)
  have h2: "\<not> config_async ?s" by (simp add: scenario_simps)
  have h3: "notify update_nothing 0 ?s = ([1, 2], Inr ?s)"
    by (simp add: notify_eq_loop scenario_simps by_id_def update_nothing_def)
  have h4: "1 \<in> set (subs (deps ?s 0))" by (simp add: scenario_simps)
  have h5: "2 \<in> set (subs (deps ?s 0))" by (simp add: scenario_simps)
  have h6: "watcher_id ?s 1 < watcher_id ?s 2" by (simp add: scenario_simps)
  from notify_ascending_ids [OF h1 h2 h3 h4 h5 h6] h1 h2 h3 h4 h5 h6 show ?thesis by blast
qed

text \<open>
  C1 as stated fails: with \<open>config.async\<close> false but \<open>NODE_ENV\<close> equal to \<open>'production'\<close>
  the copy is not sorted, and the watcher with id 2 is updated before the one with id 1.
\<close>

theorem notify_production_unsorted:
  "NODE_ENV (scenario ''production'' False) = ''production''
   \<and> \<not> config_async (scenario ''production'' False)
   \<and> subs (deps (scenario ''production'' False) 0) = [2, 1]
   \<and> watcher_id (scenario ''production'' False) 1 < watcher_id (scenario ''production'' False) 2
   \<and> notify update_nothing 0 (scenario ''production'' False)
       = ([2, 1], Inr (scenario ''production'' False))"
  by (simp add: notify_eq_loop scenario_simps update_nothing_def)

text \<open>
  C2, as amended. A call of \<open>notify\<close> that returns normally, that is, in which no
  \<open>update\<close> throws, has called \<open>update\<close> on the copy of the subscriber sequence taken on
  entry: on each watcher as often as it occurs in that copy (exactly once when no
  watcher occurs twice) and on no other watcher, in the order of the copy, sorted by
  id where \<open>notify\<close> sorts. This holds for every \<open>update\<close>, also one that calls \<open>addSub\<close> or
  \<open>removeSub\<close> on the same \<open>Dep\<close>.
\<close>

theorem notify_delivers_snapshot:
  assumes run: "notify update d s = (called, Inr s')"
  shows "called = (if NODE_ENV s \<noteq> ''production'' \<and> \<not> config_async s
                   then sort_cmp (by_id s) (subs (deps s d)) else subs (deps s d))
       \<and> (\<forall>c. count_list called c = count_list (subs (deps s d)) c)
       \<and> (distinct (subs (deps s d)) \<longrightarrow>
            (\<forall>c. count_list called c = (if c \<in> set (subs (deps s d)) then 1 else 0)))"
proof -
  let ?snap = "subs (deps s d)"
  let ?order = "if NODE_ENV s \<noteq> ''production'' \<and> \<not> config_async s
                then sort_cmp (by_id s) ?snap else ?snap"
  from run have "notify_loop update ?order s = (called, Inr s')"
    by (simp only: notify_eq_loop)
  then have called: "called = ?order" by (rule notify_loop_Inr)
  have "mset ?order = mset ?snap" by (simp add: mset_sort_cmp)
  with called have m: "mset called = mset ?snap" by simp
  have counts: "count_list called c = count_list ?snap c" for c
    using m by (metis count_mset)
  have once: "count_list called c = (if c \<in> set ?snap then 1 else 0)" if "distinct ?snap" for c
  proof -
    have "count_list ?snap c = count (mset ?snap) c" by (simp only: count_mset)
    also from that have "\<dots> = (if c \<in> set ?snap then 1 else 0)"
      by (simp only: distinct_count_atmost_1)
    finally show ?thesis by (simp only: counts)
  qed
  from called counts once show ?thesis by blast
qed

text \<open>
  The second scenario of the specification: each \<open>update\<close> removes its watcher from the
  \<open>Dep\<close> and adds it again, so the live sequence changes during the call; still both
  watchers are updated once, in the order of the copy.
\<close>

theorem notify_delivers_snapshot_witness:
  "notify update_resubscribe 0 (scenario ''production'' False)
     = ([2, 1], Inr (addSub 0 1 (removeSub 0 1 (addSub 0 2 (removeSub 0 2
                  (scenario ''production'' False))))))
   \<and> subs (deps (scenario ''production'' False) 0) = [2, 1]
   \<and> subs (deps (addSub 0 2 (removeSub 0 2 (scenario ''production'' False))) 0) = [1, 2]
   \<and> distinct (subs (deps (scenario ''production'' False) 0))
   \<and> count_list [2, 1] (2::nat) = 1 \<and> count_list [2, 1] (1::nat) = 1
   \<and> count_list [2, 1] (3::nat) = 0"
proof -
  let ?s = "scenario ''production'' False"
  let ?s' = "addSub 0 1 (removeSub 0 1 (addSub 0 2 (removeSub 0 2 ?s)))"
  have h: "notify update_resubscribe 0 ?s = ([2, 1], Inr ?s')"
    by (simp add: notify_eq_loop scenario_simps update_resubscribe_def)
  have d: "distinct (subs (deps ?s 0))" by (simp add: scenario_simps)
  have e: "subs (deps (addSub 0 2 (removeSub 0 2 ?s)) 0) = [1, 2]"
    by (simp add: scenario_simps addSub_def removeSub_def)
  from notify_delivers_snapshot [OF h] d
  have "\<forall>c. count_list [2, 1] c = (if c \<in> set (subs (deps ?s 0)) then 1 else 0)"
    by blast
  then have "count_list [2, 1] (2::nat) = 1 \<and> count_list [2, 1] (1::nat) = 1
             \<and> count_list [2, 1] (3::nat) = 0"
    by (simp only: scenario_simps) simp
  with h d e show ?thesis by (simp add: scenario_simps)
qed

text \<open>
  C2 as stated fails in two ways. \<open>addSub\<close> has been called twice with the watcher 2:
  it is updated twice by one \<open>notify\<close>. And the \<open>update\<close> of the watcher 2 throws: the
  watcher 1, which is in the sequence, is not updated.
\<close>

theorem notify_not_exactly_once:
  "subs (deps (addSub 0 2 (scenario ''production'' False)) 0) = [2, 1, 2]
   \<and> notify update_nothing 0 (addSub 0 2 (scenario ''production'' False))
       = ([2, 1, 2], Inr (addSub 0 2 (scenario ''production'' False)))
   \<and> count_list [2, 1, 2] (2::nat) = 2
   \<and> subs (deps (scenario ''production'' False) 0) = [2, 1]
   \<and> notify (update_raise_at 2) 0 (scenario ''production'' False) = ([2], Inl ''boom'')"
  by (simp add: notify_eq_loop scenario_simps addSub_def update_nothing_def update_raise_at_def)

text \<open>
  C3, as amended. \<open>notify\<close> does not catch what an \<open>update\<close> throws. When the watchers
  \<open>pre\<close> have been updated and the \<open>update\<close> of the next watcher \<open>w\<close> throws, \<open>notify\<close> ends
  with that exception for its caller: \<open>update\<close> has been called on \<open>pre\<close> and on \<open>w\<close>, and
  the watchers \<open>post\<close> that follow \<open>w\<close> are not updated by this call.
\<close>

theorem notify_stops_at_raise:
  assumes order: "(if NODE_ENV s \<noteq> ''production'' \<and> \<not> config_async s
                   then sort_cmp (by_id s) (subs (deps s d)) else subs (deps s d))
                  = pre @ w # post"
    and before: "notify_loop update pre s = (pre, Inr s1)"
    and raise: "update w s1 = Inl e"
  shows "notify update d s = (pre @ [w], Inl e)"
  using notify_loop_raise [OF before raise, of post] order by (simp only: notify_eq_loop)

theorem notify_stops_at_raise_witness:
  "(if NODE_ENV (addSub 0 3 (scenario ''development'' False)) \<noteq> ''production''
       \<and> \<not> config_async (addSub 0 3 (scenario ''development'' False))
    then sort_cmp (by_id (addSub 0 3 (scenario ''development'' False)))
           (subs (deps (addSub 0 3 (scenario ''development'' False)) 0))
    else subs (deps (addSub 0 3 (scenario ''development'' False)) 0)) = [1] @ 2 # [3]
   \<and> notify_loop (update_raise_at 2) [1] (addSub 0 3 (scenario ''development'' False))
       = ([1], Inr (addSub 0 3 (scenario ''development'' False)))
   \<and> update_raise_at 2 2 (addSub 0 3 (scenario ''development'' False)) = Inl ''boom''
   \<and> notify (update_raise_at 2) 0 (addSub 0 3 (scenario ''development'' False))
       = ([1] @ [2], Inl ''boom'')"
proof -
  let ?s = "addSub 0 3 (scenario ''development'' False)"
  have s: "subs (deps ?s 0) = [2, 1, 3]" "NODE_ENV ?s = ''development''" "\<not> config_async ?s"
    "watcher_id ?s = int"
    by (simp_all add: addSub_def scenario_simps)
  have h1: "(if NODE_ENV ?s \<noteq> ''production'' \<and> \<not> config_async ?s
             then sort_cmp (by_id ?s) (subs (deps ?s 0)) else subs (deps ?s 0)) = [1] @ 2 # [3]"
    by (simp add: s by_id_def)
  have h2: "notify_loop (update_raise_at 2) [1] ?s = ([1], Inr ?s)"
    by (simp add: update_raise_at_def)
  have h3: "update_raise_at 2 2 ?s = Inl ''boom''" by (simp add: update_raise_at_def)
  from notify_stops_at_raise [OF h1 h2 h3] h1 h2 h3 show ?thesis by blast
qed

text \<open>
  C3 as stated fails: the \<open>update\<close> of the watcher 1 throws, \<open>notify\<close> ends with the
  exception, and the watcher 2, which comes after it, is not updated.
\<close>

theorem notify_raise_skips_rest:
  "subs (deps (scenario ''development'' False) 0) = [2, 1]
   \<and> notify (update_raise_at 1) 0 (scenario ''development'' False) = ([1], Inl ''boom'')"
  by (simp add: notify_eq_loop scenario_simps by_id_def update_raise_at_def)

subsection \<open>depend\<close>

text \<open>
  C4. When \<open>Dep.target\<close> holds no watcher (it is \<open>null\<close> or \<open>undefined\<close>), \<open>depend\<close> calls
  nothing and returns the state as it was: the subscriber sequences, the stack, the
  target and the watchers' own state are all unchanged.
\<close>

theorem depend_without_target:
  assumes "active (target s) = None"
  shows "depend addDep d s = ([], Inr s)"
  using assms by (simp add: depend_def active_def split: target.splits)

theorem depend_without_target_witness:
  "active (target (init_state ''development'' False int ())) = None
   \<and> depend addDep_subscribe 0 (init_state ''development'' False int ())
       = ([], Inr (init_state ''development'' False int ()))"
proof -
  have h: "active (target (init_state ''development'' False int () :: unit state)) = None"
    by (simp add: init_state_def active_def)
  from depend_without_target [OF h] h show ?thesis by blast
qed

text \<open>
  C5. When \<open>Dep.target\<close> holds the watcher \<open>w\<close>, \<open>depend\<close> on \<open>d\<close> makes one call,
  \<open>w.addDep(d)\<close>, and its outcome is the outcome of that call: \<open>depend\<close> itself writes
  nothing, and with an \<open>addDep\<close> that does nothing the state, the subscriber sequence of
  \<open>d\<close> included, is unchanged. Whether \<open>addSub\<close> is called is up to \<open>addDep\<close>.
\<close>

theorem depend_calls_addDep:
  assumes "target s = Obj w"
  shows "depend addDep d s = ([(w, d)], addDep w d s)
       \<and> depend (\<lambda>w d s. Inr s) d s = ([(w, d)], Inr s)"
  using assms by (simp add: depend_def)

theorem depend_calls_addDep_witness:
  "target (pushTarget (Obj 2) (scenario ''development'' False)) = Obj 2
   \<and> depend addDep_subscribe 0 (pushTarget (Obj 2) (scenario ''development'' False))
       = ([(2, 0)], addDep_subscribe 2 0 (pushTarget (Obj 2) (scenario ''development'' False)))"
proof -
  have h: "target (pushTarget (Obj 2) (scenario ''development'' False)) = Obj 2"
    by (simp add: pushTarget_def)
  from depend_calls_addDep [OF h, where addDep = addDep_subscribe and d = 0] h
  show ?thesis by blast
qed

subsection \<open>The stack of targets\<close>

text \<open>
  C6. The stack is last-in-first-out and \<open>Dep.target\<close> follows its top. From a state in
  which \<open>Dep.target\<close> is the top of the stack (the initial state and every state reached
  by calls of the module are such states), \<open>pushTarget(x); pushTarget(y); popTarget()\<close>
  leaves \<open>Dep.target\<close> equal to \<open>x\<close>, and a further \<open>popTarget()\<close> restores the stack and
  the active watcher from before the first push: the same value when the stack was not
  empty, no watcher when it was. Each pop restores the evaluator of before the push,
  and both operations keep \<open>Dep.target\<close> the top of the stack.
\<close>

theorem target_stack_lifo:
  assumes top: "target_is_top s"
  shows "target (popTarget (pushTarget y (pushTarget x s))) = x
       \<and> targetStack (popTarget (pushTarget y (pushTarget x s))) = targetStack s @ [x]
       \<and> targetStack (popTarget (popTarget (pushTarget y (pushTarget x s)))) = targetStack s
       \<and> active (target (popTarget (popTarget (pushTarget y (pushTarget x s)))))
           = active (target s)
       \<and> (targetStack s \<noteq> [] \<longrightarrow>
            target (popTarget (popTarget (pushTarget y (pushTarget x s)))) = target s)
       \<and> (targetStack s = [] \<longrightarrow>
            active (target (popTarget (popTarget (pushTarget y (pushTarget x s))))) = None)
       \<and> active (target (popTarget (pushTarget x s))) = active (target s)
       \<and> target_is_top (pushTarget x s)
       \<and> target_is_top (popTarget s)"
proof -
  have p1: "popTarget (pushTarget y (pushTarget x s)) = pushTarget x s"
    by (simp add: pushTarget_def popTarget_def Let_def butlast_append)
  have p2: "targetStack (popTarget (pushTarget x s)) = targetStack s"
    by (simp add: pushTarget_def popTarget_def Let_def)
  have p3: "target (popTarget (pushTarget x s))
              = (if targetStack s = [] then Undefined else last (targetStack s))"
    by (simp add: pushTarget_def popTarget_def Let_def)
  have a: "active (target (popTarget (pushTarget x s))) = active (target s)"
  proof (cases "targetStack s = []")
    case True
    with top have "active (target s) = None" by (simp add: target_is_top_def)
    with True show ?thesis by (simp add: p3 active_def)
  next
    case False
    with top show ?thesis by (simp add: p3 target_is_top_def)
  qed
  have b: "targetStack s \<noteq> [] \<longrightarrow> target (popTarget (pushTarget x s)) = target s"
    using top by (simp add: p3 target_is_top_def)
  have c: "targetStack s = [] \<longrightarrow> active (target (popTarget (pushTarget x s))) = None"
    by (simp add: p3 active_def)
  have d: "target_is_top (pushTarget x s)"
    by (simp add: target_is_top_def pushTarget_def)
  have e: "target_is_top (popTarget s)"
    by (simp add: target_is_top_def popTarget_def Let_def active_def)
  have f: "target (pushTarget x s) = x" "targetStack (pushTarget x s) = targetStack s @ [x]"
    by (simp_all add: pushTarget_def)
  from a b c d e f p2 show ?thesis by (simp only: p1)
qed

text \<open>
  From the initial state the two pops leave no active watcher; from the state in which
  the watcher 1 is being evaluated they leave the watcher 1.
\<close>

theorem target_stack_lifo_witness:
  "target_is_top (init_state ''development'' False int ())
   \<and> target (popTarget (pushTarget (Obj 2) (pushTarget (Obj 1)
         (init_state ''development'' False int ())))) = Obj 1
   \<and> targetStack (init_state ''development'' False int ()) = []
   \<and> active (target (popTarget (popTarget (pushTarget (Obj 2) (pushTarget (Obj 1)
         (init_state ''development'' False int ())))))) = None
   \<and> target_is_top (pushTarget (Obj 1) (init_state ''development'' False int ()))
   \<and> targetStack (pushTarget (Obj 1) (init_state ''development'' False int ())) \<noteq> []
   \<and> target (popTarget (popTarget (pushTarget (Obj 3) (pushTarget (Obj 2)
         (pushTarget (Obj 1) (init_state ''development'' False int ())))))) = Obj 1"
proof -
  let ?s = "init_state ''development'' False int () :: unit state"
  have h: "target_is_top ?s" by (simp add: target_is_top_def init_state_def active_def)
  have e: "targetStack ?s = []" by (simp add: init_state_def)
  have h1: "target_is_top (pushTarget (Obj 1) ?s)" by (simp add: target_is_top_def pushTarget_def)
  have n: "targetStack (pushTarget (Obj 1) ?s) \<noteq> []" by (simp add: pushTarget_def)
  have t: "target (pushTarget (Obj 1) ?s) = Obj 1" by (simp add: pushTarget_def)
  from target_stack_lifo [OF h, of "Obj 2" "Obj 1"] target_stack_lifo [OF h1, of "Obj 3" "Obj 2"]
    h e h1 n t
  show ?thesis by metis
qed

text \<open>
  C10. On an empty stack \<open>popTarget\<close> does not fail: the stack stays empty and
  \<open>Dep.target\<close> becomes \<open>undefined\<close>, which holds no watcher, so that a \<open>depend\<close> that
  follows calls nothing and changes nothing. The value is \<open>undefined\<close> and not the \<open>null\<close>
  that \<open>Dep.target\<close> has in the initial state.
\<close>

theorem popTarget_empty_stack:
  assumes "targetStack s = []"
  shows "targetStack (popTarget s) = []
       \<and> target (popTarget s) = Undefined
       \<and> active (target (popTarget s)) = None
       \<and> depend addDep d (popTarget s) = ([], Inr (popTarget s))
       \<and> target (init_state env async ids ws) = Null
       \<and> Undefined \<noteq> Null"
  using assms by (simp add: popTarget_def depend_def active_def init_state_def)

theorem popTarget_empty_stack_witness:
  "targetStack (init_state ''development'' False int ()) = []
   \<and> targetStack (popTarget (init_state ''development'' False int ())) = []
   \<and> target (popTarget (init_state ''development'' False int ())) = Undefined
   \<and> depend addDep_subscribe 0 (popTarget (init_state ''development'' False int ()))
       = ([], Inr (popTarget (init_state ''development'' False int ())))
   \<and> target (init_state ''development'' False int ()) = Null"
proof -
  let ?s = "init_state ''development'' False int () :: unit state"
  have h: "targetStack ?s = []" by (simp add: init_state_def)
  from popTarget_empty_stack [OF h, where env = "''development''" and async = False
      and ids = int and ws = "()" and d = 0 and addDep = addDep_subscribe] h
  show ?thesis by blast
qed

subsection \<open>addSub and removeSub\<close>

text \<open>
  C7. \<open>addSub d c\<close> appends \<open>c\<close> to the end of the subscriber sequence of \<open>d\<close> and does
  nothing else: the \<open>id\<close> of \<open>d\<close>, every other \<open>Dep\<close>, the counter, the target, the stack
  and the watchers' own state are as before. It does not look for \<open>c\<close> in the sequence:
  a second call with the same consumer gives a second occurrence.
\<close>

theorem addSub_appends:
  "subs (deps (addSub d c s) d) = subs (deps s d) @ [c]
   \<and> id' (deps (addSub d c s) d) = id' (deps s d)
   \<and> (\<forall>d'. d' \<noteq> d \<longrightarrow> deps (addSub d c s) d' = deps s d')
   \<and> uid (addSub d c s) = uid s
   \<and> target (addSub d c s) = target s
   \<and> targetStack (addSub d c s) = targetStack s
   \<and> NODE_ENV (addSub d c s) = NODE_ENV s
   \<and> config_async (addSub d c s) = config_async s
   \<and> watcher_id (addSub d c s) = watcher_id s
   \<and> watchers (addSub d c s) = watchers s
   \<and> subs (deps (addSub d c (addSub d c s)) d) = subs (deps s d) @ [c, c]"
  by (simp add: addSub_def)

theorem addSub_appends_witness:
  "subs (deps (addSub 0 7 (addSub 0 7 (init_state ''development'' False int ()))) 0) = [7, 7]
   \<and> (1::nat) \<noteq> 0
   \<and> deps (addSub 0 7 (init_state ''development'' False int ())) 1
       = deps (init_state ''development'' False int ()) 1"
  using addSub_appends [of 0 7 "init_state ''development'' False int ()"]
  by (simp add: init_state_def)

text \<open>
  C8. \<open>removeSub d c\<close> takes the first occurrence of \<open>c\<close> out of the subscriber sequence
  of \<open>d\<close> and leaves the other elements in their order; when \<open>c\<close> is not in the sequence
  the state is unchanged. It has no failing outcome, and it touches nothing but that
  sequence.
\<close>

theorem removeSub_first_occurrence:
  "(c \<notin> set (subs (deps s d)) \<longrightarrow> removeSub d c s = s)
   \<and> (\<forall>xs ys. subs (deps s d) = xs @ c # ys \<and> c \<notin> set xs \<longrightarrow>
         subs (deps (removeSub d c s) d) = xs @ ys)
   \<and> id' (deps (removeSub d c s) d) = id' (deps s d)
   \<and> (\<forall>d'. d' \<noteq> d \<longrightarrow> deps (removeSub d c s) d' = deps s d')
   \<and> uid (removeSub d c s) = uid s
   \<and> target (removeSub d c s) = target s
   \<and> targetStack (removeSub d c s) = targetStack s
   \<and> watchers (removeSub d c s) = watchers s"
  by (simp add: removeSub_absent) (auto simp: removeSub_def remove_arr_first)

theorem removeSub_first_occurrence_witness:
  "(3::nat) \<notin> set (subs (deps (scenario ''development'' False) 0))
   \<and> removeSub 0 3 (scenario ''development'' False) = scenario ''development'' False
   \<and> subs (deps (addSub 0 2 (scenario ''development'' False)) 0) = [] @ 2 # [1, 2]
   \<and> (2::nat) \<notin> set []
   \<and> subs (deps (removeSub 0 2 (addSub 0 2 (scenario ''development'' False))) 0) = [] @ [1, 2]
   \<and> (1::nat) \<noteq> 0
   \<and> deps (removeSub 0 2 (scenario ''development'' False)) 1
       = deps (scenario ''development'' False) 1"
proof -
  let ?s = "scenario ''development'' False"
  have a: "(3::nat) \<notin> set (subs (deps ?s 0))" by (simp add: scenario_simps)
  have b: "subs (deps (addSub 0 2 ?s) 0) = [] @ 2 # [1, 2]" by (simp add: addSub_def scenario_simps)
  have c: "(2::nat) \<notin> set []" by simp
  have d: "(1::nat) \<noteq> 0" by simp
  from removeSub_first_occurrence [of 3 ?s 0] a
  have r1: "removeSub 0 3 ?s = ?s" by blast
  from removeSub_first_occurrence [of 2 "addSub 0 2 ?s" 0] b c
  have r2: "subs (deps (removeSub 0 2 (addSub 0 2 ?s)) 0) = [] @ [1, 2]" by blast
  from removeSub_first_occurrence [of 2 ?s 0] d
  have r3: "deps (removeSub 0 2 ?s) 1 = deps ?s 1" by blast
  from a b c d r1 r2 r3 show ?thesis by blast
qed

subsection \<open>The ids\<close>




end
